theory Spec2Isabelle
  imports Complex_Main "HOL-Library.Char_ord" "HOL-Library.List_Lexorder" "HOL-Library.Multiset"
begin

section \<open>TriggerContainer: view state, fetch cycle, mutations and metric sorting\<close>

text \<open>
  A shallow embedding of \<^verbatim>\<open>src/Containers/TriggerContainer.js\<close>. The component's
  \<^verbatim>\<open>this.state\<close> is a record that is passed in and returned; every effect the
  component has on the outside world (a \<^verbatim>\<open>setState\<close> call or a call of the injected
  API) is recorded, in program order, in a list of effects, so that the order of effects and
  the states an observer can see between them are part of the model. A promise is a value
  that is either resolved or rejected.
\<close>

subsection \<open>View state and \<^verbatim>\<open>setState\<close>\<close>

datatype sorting = SortState | SortName | SortEvent | SortValue

record ('t, 'ts, 'te) State =
  loading :: bool
  error :: "string option"
  trigger :: "'t option"
  triggerState :: "'ts option"
  triggerEvents :: "'te option"
  sorting :: sorting
  sortingDown :: bool

text \<open>The class's initial state (lines 37-45).\<close>

definition initialState :: "('t, 'ts, 'te) State" where
  "initialState =
     \<lparr>loading = True, error = None, trigger = None, triggerState = None,
      triggerEvents = None, sorting = SortValue, sortingDown = True\<rparr>"

text \<open>
  The argument of \<^verbatim>\<open>setState\<close> is an object literal naming some fields; it is a list
  of field assignments, merged into the state from left to right. One \<^verbatim>\<open>setState\<close>
  call is one update of the state: an observer sees the state before it and the state after
  it, nothing in between.
\<close>

datatype ('t, 'ts, 'te) field_update =
    Loading bool
  | Error string
  | Trigger 't
  | TriggerState 'ts
  | TriggerEvents 'te
  | Sorting sorting
  | SortingDown bool

fun assign :: "('t, 'ts, 'te) State \<Rightarrow> ('t, 'ts, 'te) field_update \<Rightarrow> ('t, 'ts, 'te) State" where
  "assign s (Loading b) = s\<lparr>loading := b\<rparr>"
| "assign s (Error m) = s\<lparr>error := Some m\<rparr>"
| "assign s (Trigger t) = s\<lparr>trigger := Some t\<rparr>"
| "assign s (TriggerState ts) = s\<lparr>triggerState := Some ts\<rparr>"
| "assign s (TriggerEvents te) = s\<lparr>triggerEvents := Some te\<rparr>"
| "assign s (Sorting k) = s\<lparr>sorting := k\<rparr>"
| "assign s (SortingDown b) = s\<lparr>sortingDown := b\<rparr>"

definition setState ::
  "('t, 'ts, 'te) State \<Rightarrow> ('t, 'ts, 'te) field_update list \<Rightarrow> ('t, 'ts, 'te) State" where
  "setState s patch = foldl assign s patch"

subsection \<open>Promises, the injected API and effects\<close>

datatype 'a settled = Rejected string | Resolved 'a

text \<open>
  \<^verbatim>\<open>moiraApi\<close> is injected (\<^verbatim>\<open>withMoiraApi\<close>); its implementation is not part of
  this file, so it is a parameter: for each operation, the promise's settlement as a
  function of the arguments. Each operation is called at most once in a run of one of the
  methods below. The payload of \<^verbatim>\<open>setMaintenance\<close> is an object from metric names
  to timestamps, here its list of entries.
\<close>

record ('t, 'ts, 'te) moiraApi =
  getTrigger :: "string \<Rightarrow> 't settled"
  getTriggerState :: "string \<Rightarrow> 'ts settled"
  getTriggerEvents :: "string \<Rightarrow> 'te settled"
  delThrottling :: "string \<Rightarrow> unit settled"
  api_setMaintenance :: "string \<Rightarrow> (string \<times> int) list \<Rightarrow> unit settled"
  delMetric :: "string \<Rightarrow> string \<Rightarrow> unit settled"

datatype ('t, 'ts, 'te) effect =
    SetState "('t, 'ts, 'te) field_update list"
  | GetTrigger string
  | GetTriggerState string
  | GetTriggerEvents string
  | DelThrottling string
  | SetMaintenance string "(string \<times> int) list"
  | DelMetric string string

text \<open>
  A run of an async method: the state it leaves, the effects it had in order, and how the
  promise it returned settles.
\<close>

type_synonym ('t, 'ts, 'te) run =
  "('t, 'ts, 'te) State \<times> ('t, 'ts, 'te) effect list \<times> unit settled"

text \<open>The states an observer sees, one after each \<^verbatim>\<open>setState\<close> among the effects.\<close>

fun observable ::
  "('t, 'ts, 'te) State \<Rightarrow> ('t, 'ts, 'te) effect list \<Rightarrow> ('t, 'ts, 'te) State list" where
  "observable s [] = []"
| "observable s (SetState p # es) = setState s p # observable (setState s p) es"
| "observable s (e # es) = observable s es"

definition is_write :: "('t, 'ts, 'te) effect \<Rightarrow> bool" where
  "is_write e = (case e of DelThrottling _ \<Rightarrow> True | SetMaintenance _ _ \<Rightarrow> True
                   | DelMetric _ _ \<Rightarrow> True | _ \<Rightarrow> False)"

definition is_read :: "('t, 'ts, 'te) effect \<Rightarrow> bool" where
  "is_read e = (case e of GetTrigger _ \<Rightarrow> True | GetTriggerState _ \<Rightarrow> True
                  | GetTriggerEvents _ \<Rightarrow> True | _ \<Rightarrow> False)"

subsection \<open>\<^verbatim>\<open>getData\<close> (lines 51-71)\<close>

text \<open>
  \<^verbatim>\<open>match.params.id\<close> is \<open>Some i\<close> when it is a string and \<open>None\<close> otherwise
  (the \<^verbatim>\<open>typeof id !== 'string'\<close> test). The three awaits run one after the other; the
  first rejection leaves the \<^verbatim>\<open>try\<close> block for the \<^verbatim>\<open>catch\<close> block, which ignores
  the reason.
\<close>

definition networkError :: string where
  "networkError = ''Network error. Please, reload page''"

definition getData_catch ::
  "('t, 'ts, 'te) State \<Rightarrow> ('t, 'ts, 'te) effect list \<Rightarrow> ('t, 'ts, 'te) run" where
  "getData_catch s issued =
     (setState s [Error networkError], issued @ [SetState [Error networkError]], Resolved ())"

definition getData ::
  "('t, 'ts, 'te) moiraApi \<Rightarrow> string option \<Rightarrow> ('t, 'ts, 'te) State \<Rightarrow> ('t, 'ts, 'te) run" where
  "getData api paramId s =
     (case paramId of
        None \<Rightarrow> (s, [], Resolved ())
      | Some i \<Rightarrow>
          (case getTrigger api i of
             Rejected _ \<Rightarrow> getData_catch s [GetTrigger i]
           | Resolved t \<Rightarrow>
               (case getTriggerState api i of
                  Rejected _ \<Rightarrow> getData_catch s [GetTrigger i, GetTriggerState i]
                | Resolved ts \<Rightarrow>
                    (case getTriggerEvents api i of
                       Rejected _ \<Rightarrow>
                         getData_catch s [GetTrigger i, GetTriggerState i, GetTriggerEvents i]
                     | Resolved te \<Rightarrow>
                         (setState s [Loading False, Trigger t, TriggerState ts, TriggerEvents te],
                          [GetTrigger i, GetTriggerState i, GetTriggerEvents i,
                           SetState [Loading False, Trigger t, TriggerState ts, TriggerEvents te]],
                          Resolved ())))))"

subsection \<open>The three mutations (lines 73-98)\<close>

text \<open>
  Each method sets \<^verbatim>\<open>loading\<close>, awaits one write call and then calls
  \<^verbatim>\<open>this.getData(this.props)\<close>. There is no \<^verbatim>\<open>try\<close> around the await: when the write
  rejects, the await throws, the rest of the method body is skipped and the method's own
  promise rejects with the same reason. \<open>paramId\<close> is \<^verbatim>\<open>this.props.match.params.id\<close>, which
  \<^verbatim>\<open>getData\<close> reads; \<open>triggerId\<close> is the method's argument.
\<close>

definition disableTrhrottling ::
  "('t, 'ts, 'te) moiraApi \<Rightarrow> string option \<Rightarrow> string \<Rightarrow> ('t, 'ts, 'te) State
     \<Rightarrow> ('t, 'ts, 'te) run" where
  "disableTrhrottling api paramId triggerId s =
     (let s1 = setState s [Loading True]
      in case delThrottling api triggerId of
           Rejected reason \<Rightarrow>
             (s1, [SetState [Loading True], DelThrottling triggerId], Rejected reason)
         | Resolved _ \<Rightarrow>
             (case getData api paramId s1 of
                (s2, es, _) \<Rightarrow>
                  (s2, [SetState [Loading True], DelThrottling triggerId] @ es, Resolved ())))"

text \<open>
  \<^verbatim>\<open>getMaintenanceTime\<close> (from \<^verbatim>\<open>Domain/Maintenance\<close>) is not in this file and is a
  parameter: the number of minutes of a maintenance choice. \<open>now\<close> is the clock that
  \<^verbatim>\<open>moment.utc()\<close> reads, in milliseconds since the epoch;
  \<^verbatim>\<open>.add(m, 'minutes')\<close> adds \<open>m * 60000\<close> milliseconds and \<^verbatim>\<open>.unix()\<close> is the
  floor of the milliseconds divided by 1000.
\<close>

definition maintenanceTimestamp :: "int \<Rightarrow> int \<Rightarrow> int" where
  "maintenanceTimestamp now maintenanceTime =
     (if maintenanceTime > 0 then (now + maintenanceTime * 60000) div 1000 else maintenanceTime)"

definition setMaintenance ::
  "('m \<Rightarrow> int) \<Rightarrow> int \<Rightarrow> ('t, 'ts, 'te) moiraApi \<Rightarrow> string option \<Rightarrow> string \<Rightarrow> 'm \<Rightarrow> string
     \<Rightarrow> ('t, 'ts, 'te) State \<Rightarrow> ('t, 'ts, 'te) run" where
  "setMaintenance getMaintenanceTime now api paramId triggerId maintenance metric s =
     (let s1 = setState s [Loading True];
          maintenanceTime = getMaintenanceTime maintenance;
          payload = [(metric, maintenanceTimestamp now maintenanceTime)]
      in case api_setMaintenance api triggerId payload of
           Rejected reason \<Rightarrow>
             (s1, [SetState [Loading True], SetMaintenance triggerId payload], Rejected reason)
         | Resolved _ \<Rightarrow>
             (case getData api paramId s1 of
                (s2, es, _) \<Rightarrow>
                  (s2, [SetState [Loading True], SetMaintenance triggerId payload] @ es,
                   Resolved ())))"

definition removeMetric ::
  "('t, 'ts, 'te) moiraApi \<Rightarrow> string option \<Rightarrow> string \<Rightarrow> string \<Rightarrow> ('t, 'ts, 'te) State
     \<Rightarrow> ('t, 'ts, 'te) run" where
  "removeMetric api paramId triggerId metric s =
     (let s1 = setState s [Loading True]
      in case delMetric api triggerId metric of
           Rejected reason \<Rightarrow>
             (s1, [SetState [Loading True], DelMetric triggerId metric], Rejected reason)
         | Resolved _ \<Rightarrow>
             (case getData api paramId s1 of
                (s2, es, _) \<Rightarrow>
                  (s2, [SetState [Loading True], DelMetric triggerId metric] @ es, Resolved ())))"

subsection \<open>The \<^verbatim>\<open>onSort\<close> handler of \<^verbatim>\<open>render\<close> (lines 189-196)\<close>

text \<open>
  The handler closes over \<^verbatim>\<open>sorting\<close> and \<^verbatim>\<open>sortingDown\<close> of the state that was
  rendered, and the state is rendered again after every \<^verbatim>\<open>setState\<close>.
\<close>

definition onSort :: "('t, 'ts, 'te) State \<Rightarrow> sorting \<Rightarrow> ('t, 'ts, 'te) State" where
  "onSort s newSorting =
     (if newSorting = sorting s
      then setState s [SortingDown (\<not> sortingDown s)]
      else setState s [Sorting newSorting, SortingDown True])"

subsection \<open>JavaScript values and objects used by \<^verbatim>\<open>sortMetrics\<close>\<close>

text \<open>
  A number field of a metric is either absent (reading it gives \<^verbatim>\<open>undefined\<close>) or a
  finite number; finite numbers are rationals, on which \<^verbatim>\<open><\<close> is exact. The
  relational operators convert \<^verbatim>\<open>undefined\<close> to \<^verbatim>\<open>NaN\<close>, and every comparison
  with \<^verbatim>\<open>NaN\<close> is false. \<^verbatim>\<open>A > B\<close> is \<^verbatim>\<open>B < A\<close>.
\<close>

datatype jsnum = JUndefined | JNum rat

fun js_lt :: "jsnum \<Rightarrow> jsnum \<Rightarrow> bool" where
  "js_lt (JNum a) (JNum b) = (a < b)"
| "js_lt _ _ = False"

definition js_gt :: "jsnum \<Rightarrow> jsnum \<Rightarrow> bool" where
  "js_gt a b = js_lt b a"

fun truthy :: "jsnum \<Rightarrow> bool" where
  "truthy JUndefined = False"
| "truthy (JNum x) = (x \<noteq> 0)"

definition js_or :: "jsnum \<Rightarrow> jsnum \<Rightarrow> jsnum" where
  "js_or a b = (if truthy a then a else b)"

record 'st Metric =
  state :: 'st
  event_timestamp :: jsnum
  metric_value :: jsnum

datatype js_error = TypeError

text \<open>
  A plain object is the list of its own properties in the order in which
  \<^verbatim>\<open>Object.keys\<close> and the spread syntax enumerate them: first the keys that are array
  indices (canonical decimal numerals below \<open>2^32 - 1\<close>) in ascending numeric order, then
  the other string keys in the order of their creation. A property value is \<open>None\<close> when
  it is \<^verbatim>\<open>undefined\<close>, and so is the result of reading a key the object does not have.
\<close>

type_synonym 'v obj = "(string \<times> 'v option) list"

definition obj_keys :: "'v obj \<Rightarrow> string list" where
  "obj_keys ob = map fst ob"

definition obj_get :: "'v obj \<Rightarrow> string \<Rightarrow> 'v option" where
  "obj_get ob k = (case map_of ob k of None \<Rightarrow> None | Some v \<Rightarrow> v)"

definition is_digit :: "char \<Rightarrow> bool" where
  "is_digit c = (CHR ''0'' \<le> c \<and> c \<le> CHR ''9'')"

definition dec_value :: "string \<Rightarrow> nat" where
  "dec_value k = foldl (\<lambda>n c. 10 * n + (of_char c - 48)) 0 k"

definition array_index :: "string \<Rightarrow> nat option" where
  "array_index k =
     (if k \<noteq> [] \<and> list_all is_digit k \<and> (k = ''0'' \<or> hd k \<noteq> CHR ''0'')
         \<and> dec_value k < 4294967295
      then Some (dec_value k) else None)"

text \<open>A new array-index key goes before the first index key that is larger and before the string keys.\<close>

fun ins_index :: "nat \<Rightarrow> string \<Rightarrow> 'v option \<Rightarrow> 'v obj \<Rightarrow> 'v obj" where
  "ins_index n k v [] = [(k, v)]"
| "ins_index n k v ((k', v') # rest) =
     (case array_index k' of
        Some n' \<Rightarrow> if n' < n then (k', v') # ins_index n k v rest else (k, v) # (k', v') # rest
      | None \<Rightarrow> (k, v) # (k', v') # rest)"

text \<open>
  Defining a property: an existing key keeps its place and takes the new value; a new key
  is placed by the enumeration order.
\<close>

definition obj_put :: "'v obj \<Rightarrow> string \<Rightarrow> 'v option \<Rightarrow> 'v obj" where
  "obj_put ob k v =
     (if k \<in> set (obj_keys ob)
      then map (\<lambda>(k', v'). if k' = k then (k', v) else (k', v')) ob
      else (case array_index k of
              None \<Rightarrow> ob @ [(k, v)]
            | Some n \<Rightarrow> ins_index n k v ob))"

text \<open>\<^verbatim>\<open>{ ...data }\<close>: a new object that receives the properties of \<open>data\<close> in its order.\<close>

definition obj_spread :: "'v obj \<Rightarrow> 'v obj" where
  "obj_spread ob = foldl (\<lambda>acc (k, v). obj_put acc k v) [] ob"

text \<open>
  Objects live in a store; a reference is an index into it. Creating an object appends
  it, so that an object literal always gives a reference that was not in use.
\<close>

type_synonym 'v heap = "'v obj list"

definition alloc :: "'v heap \<Rightarrow> 'v obj \<Rightarrow> 'v heap \<times> nat" where
  "alloc h ob = (h @ [ob], length h)"

definition deref :: "'v heap \<Rightarrow> nat \<Rightarrow> 'v obj option" where
  "deref h r = (if r < length h then Some (h ! r) else None)"

subsection \<open>\<^verbatim>\<open>Array.prototype.sort\<close> with a comparator\<close>

text \<open>
  The engine's sort is modelled as a stable insertion sort: each element is inserted into
  the sorted prefix before the first element that the comparator puts after it
  (\<^verbatim>\<open>comparefn(y, x) > 0\<close>). An exception thrown by the comparator ends the sort.
\<close>

fun insert_by :: "('a \<Rightarrow> 'a \<Rightarrow> js_error + int) \<Rightarrow> 'a \<Rightarrow> 'a list \<Rightarrow> js_error + 'a list" where
  "insert_by comparefn x [] = Inr [x]"
| "insert_by comparefn x (y # ys) =
     (case comparefn y x of
        Inl e \<Rightarrow> Inl e
      | Inr c \<Rightarrow>
          if c > 0 then Inr (x # y # ys)
          else (case insert_by comparefn x ys of
                  Inl e \<Rightarrow> Inl e
                | Inr zs \<Rightarrow> Inr (y # zs)))"

fun sort_into :: "('a \<Rightarrow> 'a \<Rightarrow> js_error + int) \<Rightarrow> 'a list \<Rightarrow> 'a list \<Rightarrow> js_error + 'a list" where
  "sort_into comparefn sorted_prefix [] = Inr sorted_prefix"
| "sort_into comparefn sorted_prefix (x # xs) =
     (case insert_by comparefn x sorted_prefix of
        Inl e \<Rightarrow> Inl e
      | Inr sorted_prefix' \<Rightarrow> sort_into comparefn sorted_prefix' xs)"

definition array_sort :: "('a \<Rightarrow> 'a \<Rightarrow> js_error + int) \<Rightarrow> 'a list \<Rightarrow> js_error + 'a list" where
  "array_sort comparefn xs = sort_into comparefn [] xs"

subsection \<open>\<^verbatim>\<open>sortMetrics\<close> (lines 100-160)\<close>

text \<open>
  Strings are lists of code units and are compared lexicographically by code unit.
  \<^verbatim>\<open>trim\<close> removes white space and line terminators at both ends (of the code units
  below 256: tab, line feed, vertical tab, form feed, carriage return, space, no-break
  space); the regular expression \<^verbatim>\<open>/[^a-zA-Z0-9-.]/g\<close> matches every code unit that is
  not a letter, a digit, a hyphen or a dot; \<^verbatim>\<open>toLowerCase\<close> is applied to what is
  left, which is ASCII, where it maps \<^verbatim>\<open>A-Z\<close> to \<^verbatim>\<open>a-z\<close>.
\<close>

definition is_white :: "char \<Rightarrow> bool" where
  "is_white c = (of_char c \<in> {9, 10, 11, 12, 13, 32, 160 :: nat})"

definition trim :: "string \<Rightarrow> string" where
  "trim s = rev (dropWhile is_white (rev (dropWhile is_white s)))"

definition regex_matches :: "char \<Rightarrow> bool" where
  "regex_matches c =
     (\<not> ((CHR ''a'' \<le> c \<and> c \<le> CHR ''z'') \<or> (CHR ''A'' \<le> c \<and> c \<le> CHR ''Z'')
         \<or> (CHR ''0'' \<le> c \<and> c \<le> CHR ''9'') \<or> c = CHR ''-'' \<or> c = CHR ''.''))"

definition replace_regex :: "string \<Rightarrow> string" where
  "replace_regex s = filter (\<lambda>c. \<not> regex_matches c) s"

definition toLowerCase :: "string \<Rightarrow> string" where
  "toLowerCase s =
     map (\<lambda>c. if CHR ''A'' \<le> c \<and> c \<le> CHR ''Z'' then char_of (of_char c + (32 :: nat)) else c) s"

text \<open>
  \<^verbatim>\<open>getStatusWeight\<close> (from \<^verbatim>\<open>Domain/Status\<close>) is not in this file and is a
  parameter; \<open>down\<close> is \<^verbatim>\<open>sortingDown\<close> of the state. \<^verbatim>\<open>metrics[a].state\<close> throws a \<^verbatim>\<open>TypeError\<close> when \<^verbatim>\<open>metrics[a]\<close> is
  \<^verbatim>\<open>undefined\<close>.
\<close>

definition stateFn ::
  "('st \<Rightarrow> jsnum) \<Rightarrow> 'st Metric obj \<Rightarrow> bool \<Rightarrow> string \<Rightarrow> string \<Rightarrow> js_error + int" where
  "stateFn getStatusWeight metrics down a b =
     (case obj_get metrics a of
        None \<Rightarrow> Inl TypeError
      | Some ma \<Rightarrow>
          (case obj_get metrics b of
             None \<Rightarrow> Inl TypeError
           | Some mb \<Rightarrow>
               (let A = getStatusWeight (state ma);
                    B = getStatusWeight (state mb)
                in if js_lt A B then Inr (if down then - 1 else 1)
                   else if js_gt A B then Inr (if down then 1 else - 1)
                   else Inr 0)))"

definition nameFn :: "bool \<Rightarrow> string \<Rightarrow> string \<Rightarrow> js_error + int" where
  "nameFn down a b =
     (let A = toLowerCase (replace_regex (trim a));
          B = toLowerCase (replace_regex (trim b))
      in if A < B then Inr (if down then - 1 else 1)
         else if A > B then Inr (if down then 1 else - 1)
         else Inr 0)"

definition eventFn :: "'st Metric obj \<Rightarrow> bool \<Rightarrow> string \<Rightarrow> string \<Rightarrow> js_error + int" where
  "eventFn metrics down a b =
     (case obj_get metrics a of
        None \<Rightarrow> Inl TypeError
      | Some ma \<Rightarrow>
          (case obj_get metrics b of
             None \<Rightarrow> Inl TypeError
           | Some mb \<Rightarrow>
               (let A = event_timestamp ma;
                    B = event_timestamp mb
                in if js_lt A B then Inr (if down then - 1 else 1)
                   else if js_gt A B then Inr (if down then 1 else - 1)
                   else Inr 0)))"

definition valueFn :: "'st Metric obj \<Rightarrow> bool \<Rightarrow> string \<Rightarrow> string \<Rightarrow> js_error + int" where
  "valueFn metrics down a b =
     (case obj_get metrics a of
        None \<Rightarrow> Inl TypeError
      | Some ma \<Rightarrow>
          (case obj_get metrics b of
             None \<Rightarrow> Inl TypeError
           | Some mb \<Rightarrow>
               (let A = js_or (metric_value ma) (JNum 0);
                    B = js_or (metric_value mb) (JNum 0)
                in if js_lt A B then Inr (if down then - 1 else 1)
                   else if js_gt A B then Inr (if down then 1 else - 1)
                   else Inr 0)))"

definition sortingFn ::
  "('st \<Rightarrow> jsnum) \<Rightarrow> 'st Metric obj \<Rightarrow> bool \<Rightarrow> sorting \<Rightarrow> string \<Rightarrow> string \<Rightarrow> js_error + int" where
  "sortingFn getStatusWeight metrics down k =
     (case k of
        SortState \<Rightarrow> stateFn getStatusWeight metrics down
      | SortName \<Rightarrow> nameFn down
      | SortEvent \<Rightarrow> eventFn metrics down
      | SortValue \<Rightarrow> valueFn metrics down)"

text \<open>
  The \<^verbatim>\<open>reduce\<close>: every step evaluates an object literal, which creates an object, copies
  the accumulator \<open>data\<close> into it and defines \<^verbatim>\<open>[key]: metrics[key]\<close> on it; the new
  object is the next accumulator. The initial accumulator \<^verbatim>\<open>{}\<close> is created by the caller.
\<close>

fun reduce :: "'v obj \<Rightarrow> 'v heap \<Rightarrow> nat \<Rightarrow> string list \<Rightarrow> 'v heap \<times> nat" where
  "reduce metrics h data [] = (h, data)"
| "reduce metrics h data (key # keys) =
     (case alloc h (obj_put (obj_spread (h ! data)) key (obj_get metrics key)) of
        (h', data') \<Rightarrow> reduce metrics h' data' keys)"

text \<open>
  \<open>metrics\<close> is a reference to the object passed in; \<^verbatim>\<open>Object.keys\<close> throws a
  \<^verbatim>\<open>TypeError\<close> when it does not denote an object. The result is the store after the
  call and the reference returned.
\<close>

definition sortMetrics ::
  "('st \<Rightarrow> jsnum) \<Rightarrow> ('t, 'ts, 'te) State \<Rightarrow> 'st Metric heap \<Rightarrow> nat
     \<Rightarrow> js_error + 'st Metric heap \<times> nat" where
  "sortMetrics getStatusWeight s h metrics =
     (case deref h metrics of
        None \<Rightarrow> Inl TypeError
      | Some m \<Rightarrow>
          (case array_sort (sortingFn getStatusWeight m (sortingDown s) (sorting s)) (obj_keys m) of
             Inl e \<Rightarrow> Inl e
           | Inr sorted_keys \<Rightarrow>
               (case alloc h [] of
                  (h0, data0) \<Rightarrow> Inr (reduce m h0 data0 sorted_keys))))"

subsection \<open>Auxiliary notions for the statements\<close>

definition resolved :: "'a settled \<Rightarrow> bool" where
  "resolved r = (case r of Resolved _ \<Rightarrow> True | Rejected _ \<Rightarrow> False)"

text \<open>How a method's promise settles when nothing but its write call can reject.\<close>

definition settles_as :: "unit settled \<Rightarrow> unit settled" where
  "settles_as r = (case r of Rejected reason \<Rightarrow> Rejected reason | Resolved _ \<Rightarrow> Resolved ())"

text \<open>The arguments of the \<^verbatim>\<open>setState\<close> calls among the effects, in order.\<close>

fun patches :: "('t, 'ts, 'te) effect list \<Rightarrow> ('t, 'ts, 'te) field_update list list" where
  "patches [] = []"
| "patches (SetState p # es) = p # patches es"
| "patches (e # es) = patches es"

text \<open>
  A test double of the API: the flags say which of the three reads resolve and whether the
  writes resolve. A state that shows data of an earlier cycle.
\<close>

definition stubApi :: "bool \<Rightarrow> bool \<Rightarrow> bool \<Rightarrow> bool \<Rightarrow> (nat, nat, nat) moiraApi" where
  "stubApi r1 r2 r3 w =
     \<lparr>getTrigger = (\<lambda>i. if r1 then Resolved 1 else Rejected ''500''),
      getTriggerState = (\<lambda>i. if r2 then Resolved 2 else Rejected ''500''),
      getTriggerEvents = (\<lambda>i. if r3 then Resolved 3 else Rejected ''500''),
      delThrottling = (\<lambda>i. if w then Resolved () else Rejected ''500''),
      api_setMaintenance = (\<lambda>i p. if w then Resolved () else Rejected ''500''),
      delMetric = (\<lambda>i m. if w then Resolved () else Rejected ''500'')\<rparr>"

definition staleState :: "(nat, nat, nat) State" where
  "staleState =
     \<lparr>loading = True, error = None, trigger = Some 7, triggerState = Some 8,
      triggerEvents = Some 9, sorting = SortName, sortingDown = False\<rparr>"

text \<open>
  The object that the \<^verbatim>\<open>reduce\<close> of \<^verbatim>\<open>sortMetrics\<close> builds from the accumulator
  \<open>data\<close>, without the store; the key order of the object a call returns.
\<close>

definition reduce_value :: "'v obj \<Rightarrow> 'v obj \<Rightarrow> string list \<Rightarrow> 'v obj" where
  "reduce_value metrics data keys =
     foldl (\<lambda>data key. obj_put (obj_spread data) key (obj_get metrics key)) data keys"

definition result_keys :: "js_error + 'v heap \<times> nat \<Rightarrow> js_error + string list" where
  "result_keys r = (case r of Inl e \<Rightarrow> Inl e | Inr (h, data) \<Rightarrow> Inr (obj_keys (h ! data)))"

text \<open>
  The sign convention of the comparators, for the outcomes \<open>lt\<close> of \<^verbatim>\<open>A < B\<close> and
  \<open>gt\<close> of \<^verbatim>\<open>A > B\<close>.
\<close>

definition sign_convention :: "bool \<Rightarrow> bool \<Rightarrow> bool \<Rightarrow> js_error + int \<Rightarrow> bool" where
  "sign_convention lt gt down r =
     ((lt \<longrightarrow> r = Inr (if down then - 1 else 1))
      \<and> (gt \<longrightarrow> r = Inr (if down then 1 else - 1))
      \<and> (\<not> lt \<and> \<not> gt \<longrightarrow> r = Inr 0))"

text \<open>
  The metrics object in which, at the keys chosen by \<open>P\<close>, every metric without a
  \<^verbatim>\<open>value\<close> field has \<^verbatim>\<open>value: 0\<close> instead.
\<close>

definition zero_absent :: "(string \<Rightarrow> bool) \<Rightarrow> 'st Metric obj \<Rightarrow> 'st Metric obj" where
  "zero_absent P m =
     map (\<lambda>(k, v). (k, if P k
                        then map_option (\<lambda>x. if metric_value x = JUndefined
                                              then x\<lparr>metric_value := JNum 0\<rparr> else x) v
                        else v)) m"

text \<open>A metrics object with two names that differ only in case and punctuation.\<close>

definition exampleMetrics :: "nat Metric obj" where
  "exampleMetrics =
     [(''Metric-A!'', Some \<lparr>state = 0, event_timestamp = JNum 5, metric_value = JUndefined\<rparr>),
      (''cpu'', Some \<lparr>state = 1, event_timestamp = JUndefined, metric_value = JNum 3\<rparr>),
      (''metric-a'', Some \<lparr>state = 2, event_timestamp = JNum 7, metric_value = JNum (- 1)\<rparr>)]"

section \<open>Properties of the fetch cycle\<close>

lemma getData_no_write: "filter is_write (fst (snd (getData api paramId s))) = []"
  by (auto simp: getData_def getData_catch_def is_write_def split: option.splits settled.splits)

lemma getData_failure:
  assumes "\<not> (resolved (getTrigger api i) \<and> resolved (getTriggerState api i)
          \<and> resolved (getTriggerEvents api i))"
  shows "fst (getData api (Some i) s) = s\<lparr>error := Some networkError\<rparr>"
    and "patches (fst (snd (getData api (Some i) s))) = [[Error networkError]]"
    and "observable s (fst (snd (getData api (Some i) s))) = [s\<lparr>error := Some networkError\<rparr>]"
  using assms
  by (auto simp: getData_def getData_catch_def setState_def resolved_def split: settled.splits)

text \<open>
  Claim C1. For every trigger id that is a string: when the three reads resolve, the cycle
  makes exactly one \<^verbatim>\<open>setState\<close> call, whose argument holds \<^verbatim>\<open>loading: false\<close> and the
  three fetched values together, so the only state an observer sees after the start of the
  cycle is the final one, with all three fields populated; when some read rejects, the only
  \<^verbatim>\<open>setState\<close> call is the one that sets \<^verbatim>\<open>error\<close>, and no observable state differs
  from the initial one in \<^verbatim>\<open>trigger\<close>, \<^verbatim>\<open>triggerState\<close> or \<^verbatim>\<open>triggerEvents\<close>.
\<close>

theorem getData_atomic:
  "(getTrigger api i = Resolved t \<and> getTriggerState api i = Resolved ts
      \<and> getTriggerEvents api i = Resolved te \<longrightarrow>
      fst (getData api (Some i) s) =
        s\<lparr>loading := False, trigger := Some t, triggerState := Some ts, triggerEvents := Some te\<rparr>
      \<and> patches (fst (snd (getData api (Some i) s)))
          = [[Loading False, Trigger t, TriggerState ts, TriggerEvents te]]
      \<and> observable s (fst (snd (getData api (Some i) s))) = [fst (getData api (Some i) s)])
   \<and> (\<not> (resolved (getTrigger api i) \<and> resolved (getTriggerState api i)
          \<and> resolved (getTriggerEvents api i)) \<longrightarrow>
      patches (fst (snd (getData api (Some i) s))) = [[Error networkError]]
      \<and> (\<forall>s' \<in> set (observable s (fst (snd (getData api (Some i) s)))).
         trigger s' = trigger s \<and> triggerState s' = triggerState s
         \<and> triggerEvents s' = triggerEvents s))"
  by (auto simp: getData_def getData_catch_def setState_def resolved_def split: settled.splits)

theorem getData_atomic_witness:
  "fst (getData (stubApi True True True True) (Some ''t1'') initialState) =
     initialState\<lparr>loading := False, trigger := Some 1, triggerState := Some 2,
                  triggerEvents := Some 3\<rparr>
   \<and> observable initialState
        (fst (snd (getData (stubApi True True True True) (Some ''t1'') initialState)))
       = [fst (getData (stubApi True True True True) (Some ''t1'') initialState)]
   \<and> list_all (\<lambda>s'. trigger s' = None \<and> triggerState s' = None \<and> triggerEvents s' = None)
        (observable initialState
           (fst (snd (getData (stubApi True False True True) (Some ''t1'') initialState))))
   \<and> length (observable initialState
        (fst (snd (getData (stubApi True False True True) (Some ''t1'') initialState)))) = 1"
  using getData_atomic [of "stubApi True True True True" "''t1''" 1 2 3 initialState]
        getData_atomic [of "stubApi True False True True" "''t1''" 1 2 3 initialState]
  by (simp add: stubApi_def resolved_def initialState_def list_all_iff getData_def
      getData_catch_def setState_def)

text \<open>
  Claim C2. For every trigger id that is a string, if one of the three reads rejects, the
  cycle leaves the state it started from with \<^verbatim>\<open>error\<close> set to
  \<^verbatim>\<open>"Network error. Please, reload page"\<close> and nothing else changed: the three data fields
  keep their values, and \<^verbatim>\<open>loading\<close> is not set to false but keeps the value it had.
\<close>

theorem getData_failure_keeps_data:
  assumes "\<not> resolved (getTrigger api i) \<or> \<not> resolved (getTriggerState api i)
             \<or> \<not> resolved (getTriggerEvents api i)"
  shows "fst (getData api (Some i) s) = s\<lparr>error := Some ''Network error. Please, reload page''\<rparr>
         \<and> error (fst (getData api (Some i) s)) = Some ''Network error. Please, reload page''
         \<and> trigger (fst (getData api (Some i) s)) = trigger s
         \<and> triggerState (fst (getData api (Some i) s)) = triggerState s
         \<and> triggerEvents (fst (getData api (Some i) s)) = triggerEvents s
         \<and> loading (fst (getData api (Some i) s)) = loading s
         \<and> patches (fst (snd (getData api (Some i) s)))
             = [[Error ''Network error. Please, reload page'']]"
proof -
  have h: "\<not> (resolved (getTrigger api i) \<and> resolved (getTriggerState api i)
          \<and> resolved (getTriggerEvents api i))"
    using assms by blast
  show ?thesis
    using getData_failure(1,2) [OF h, of s] by (simp add: networkError_def)
qed

theorem getData_failure_keeps_data_witness:
  "\<not> resolved (getTriggerEvents (stubApi True True False True) ''t1'')
   \<and> fst (getData (stubApi True True False True) (Some ''t1'') staleState)
       = staleState\<lparr>error := Some ''Network error. Please, reload page''\<rparr>
   \<and> loading (fst (getData (stubApi True True False True) (Some ''t1'') staleState)) = True
   \<and> trigger (fst (getData (stubApi True True False True) (Some ''t1'') staleState)) = Some 7"
proof -
  have h: "\<not> resolved (getTriggerEvents (stubApi True True False True) ''t1'')"
    by (simp add: stubApi_def resolved_def)
  then have "\<not> resolved (getTrigger (stubApi True True False True) ''t1'')
      \<or> \<not> resolved (getTriggerState (stubApi True True False True) ''t1'')
      \<or> \<not> resolved (getTriggerEvents (stubApi True True False True) ''t1'')"
    by blast
  from getData_failure_keeps_data [OF this, of staleState] h show ?thesis
    by (simp add: staleState_def)
qed

section \<open>Properties of the mutations and of the sort selection\<close>

lemma disableTrhrottling_run:
  "fst (snd (disableTrhrottling api paramId triggerId s)) =
     [SetState [Loading True], DelThrottling triggerId]
       @ (if resolved (delThrottling api triggerId)
          then fst (snd (getData api paramId (s\<lparr>loading := True\<rparr>))) else [])"
  "snd (snd (disableTrhrottling api paramId triggerId s)) = settles_as (delThrottling api triggerId)"
  by (simp_all add: disableTrhrottling_def resolved_def settles_as_def setState_def
      split: settled.splits prod.splits)

lemma removeMetric_run:
  "fst (snd (removeMetric api paramId triggerId metric s)) =
     [SetState [Loading True], DelMetric triggerId metric]
       @ (if resolved (delMetric api triggerId metric)
          then fst (snd (getData api paramId (s\<lparr>loading := True\<rparr>))) else [])"
  "snd (snd (removeMetric api paramId triggerId metric s))
     = settles_as (delMetric api triggerId metric)"
  by (simp_all add: removeMetric_def resolved_def settles_as_def setState_def
      split: settled.splits prod.splits)

lemma setMaintenance_run:
  "fst (snd (setMaintenance gmt now api paramId triggerId maintenance metric s)) =
     [SetState [Loading True],
      SetMaintenance triggerId [(metric, maintenanceTimestamp now (gmt maintenance))]]
       @ (if resolved (api_setMaintenance api triggerId
                         [(metric, maintenanceTimestamp now (gmt maintenance))])
          then fst (snd (getData api paramId (s\<lparr>loading := True\<rparr>))) else [])"
  "snd (snd (setMaintenance gmt now api paramId triggerId maintenance metric s))
     = settles_as (api_setMaintenance api triggerId
         [(metric, maintenanceTimestamp now (gmt maintenance))])"
  by (simp_all add: setMaintenance_def Let_def resolved_def settles_as_def setState_def
      split: settled.splits prod.splits)

text \<open>
  Claim C3, as amended. Each of \<^verbatim>\<open>disableTrhrottling\<close>, \<^verbatim>\<open>removeMetric\<close> and
  \<^verbatim>\<open>setMaintenance\<close> first calls \<^verbatim>\<open>setState({ loading: true })\<close>, then makes its one
  write call, and its effects contain no other write call; when the write call resolves,
  the effects of a fetch cycle started from the state with \<^verbatim>\<open>loading\<close> set follow and
  the method's promise resolves; when it rejects, nothing follows and the method's promise
  rejects with the same reason.
\<close>

theorem mutation_template:
  "fst (snd (disableTrhrottling api paramId triggerId s)) =
     [SetState [Loading True], DelThrottling triggerId]
       @ (if resolved (delThrottling api triggerId)
          then fst (snd (getData api paramId (s\<lparr>loading := True\<rparr>))) else [])
   \<and> filter is_write (fst (snd (disableTrhrottling api paramId triggerId s)))
       = [DelThrottling triggerId]
   \<and> snd (snd (disableTrhrottling api paramId triggerId s))
       = settles_as (delThrottling api triggerId)
   \<and> fst (snd (removeMetric api paramId triggerId metric s)) =
     [SetState [Loading True], DelMetric triggerId metric]
       @ (if resolved (delMetric api triggerId metric)
          then fst (snd (getData api paramId (s\<lparr>loading := True\<rparr>))) else [])
   \<and> filter is_write (fst (snd (removeMetric api paramId triggerId metric s)))
       = [DelMetric triggerId metric]
   \<and> snd (snd (removeMetric api paramId triggerId metric s))
       = settles_as (delMetric api triggerId metric)
   \<and> fst (snd (setMaintenance gmt now api paramId triggerId maintenance metric s)) =
     [SetState [Loading True],
      SetMaintenance triggerId [(metric, maintenanceTimestamp now (gmt maintenance))]]
       @ (if resolved (api_setMaintenance api triggerId
                         [(metric, maintenanceTimestamp now (gmt maintenance))])
          then fst (snd (getData api paramId (s\<lparr>loading := True\<rparr>))) else [])
   \<and> filter is_write (fst (snd (setMaintenance gmt now api paramId triggerId maintenance metric s)))
       = [SetMaintenance triggerId [(metric, maintenanceTimestamp now (gmt maintenance))]]
   \<and> snd (snd (setMaintenance gmt now api paramId triggerId maintenance metric s))
       = settles_as (api_setMaintenance api triggerId
           [(metric, maintenanceTimestamp now (gmt maintenance))])"
  by (simp add: disableTrhrottling_run removeMetric_run setMaintenance_run getData_no_write
      is_write_def)

theorem mutation_template_witness:
  "fst (snd (disableTrhrottling (stubApi True True True True) (Some ''t1'') ''t1'' staleState)) =
     [SetState [Loading True], DelThrottling ''t1'', GetTrigger ''t1'', GetTriggerState ''t1'',
      GetTriggerEvents ''t1'',
      SetState [Loading False, Trigger 1, TriggerState 2, TriggerEvents 3]]
   \<and> snd (snd (disableTrhrottling (stubApi True True True True) (Some ''t1'') ''t1'' staleState))
       = Resolved ()
   \<and> fst (snd (removeMetric (stubApi True True True False) (Some ''t1'') ''t1'' ''cpu'' staleState)) =
     [SetState [Loading True], DelMetric ''t1'' ''cpu'']
   \<and> snd (snd (removeMetric (stubApi True True True False) (Some ''t1'') ''t1'' ''cpu'' staleState))
       = Rejected ''500''"
  using mutation_template [where api = "stubApi True True True True" and paramId = "Some ''t1''"
          and triggerId = "''t1''" and s = staleState and metric = "''cpu''"
          and gmt = "\<lambda>_. 0" and now = 0 and maintenance = "()"]
        mutation_template [where api = "stubApi True True True False" and paramId = "Some ''t1''"
          and triggerId = "''t1''" and s = staleState and metric = "''cpu''"
          and gmt = "\<lambda>_. 0" and now = 0 and maintenance = "()"]
  by (simp add: stubApi_def resolved_def settles_as_def getData_def)

text \<open>
  Against claim C3 as stated: with a write call that rejects, \<^verbatim>\<open>disableTrhrottling\<close>
  ends after the write call, its promise rejects, \<^verbatim>\<open>loading\<close> stays true and no read of
  a fetch cycle is made, although the trigger id is a string.
\<close>

theorem refresh_skipped_when_write_rejects:
  "disableTrhrottling (stubApi True True True False) (Some ''t1'') ''t1'' staleState =
     (staleState\<lparr>loading := True\<rparr>, [SetState [Loading True], DelThrottling ''t1''],
      Rejected ''500'')
   \<and> filter is_read
        (fst (snd (disableTrhrottling (stubApi True True True False) (Some ''t1'') ''t1'' staleState)))
       = []"
  by (simp add: disableTrhrottling_def stubApi_def setState_def is_read_def)

text \<open>
  Claim C9. The one write call of \<^verbatim>\<open>setMaintenance\<close> carries a payload with the single
  entry of the given metric name; its timestamp is, for a positive number of minutes, the
  current time in whole epoch seconds plus sixty times the minutes, and otherwise the
  number returned by \<^verbatim>\<open>getMaintenanceTime\<close> itself.
\<close>

theorem setMaintenance_payload:
  "filter is_write (fst (snd (setMaintenance gmt now api paramId triggerId maintenance metric s))) =
     [SetMaintenance triggerId
        [(metric, if 0 < gmt maintenance then now div 1000 + 60 * gmt maintenance
                  else gmt maintenance)]]"
proof -
  have "(now + m * 60000) div 1000 = now div 1000 + 60 * m" for m :: int
  proof -
    have "now + m * 60000 = now + (60 * m) * 1000" by simp
    then show ?thesis by (simp only: div_mult_self2)
  qed
  then show ?thesis
    by (simp add: setMaintenance_run getData_no_write maintenanceTimestamp_def is_write_def)
qed

theorem setMaintenance_payload_witness:
  "filter is_write (fst (snd (setMaintenance (\<lambda>m. m) 1700000000123 (stubApi True True True True)
       (Some ''t1'') ''t1'' 60 ''cpu'' staleState)))
     = [SetMaintenance ''t1'' [(''cpu'', 1700003600)]]
   \<and> filter is_write (fst (snd (setMaintenance (\<lambda>m. m) 1700000000123 (stubApi True True True True)
       (Some ''t1'') ''t1'' 0 ''cpu'' staleState)))
     = [SetMaintenance ''t1'' [(''cpu'', 0)]]
   \<and> filter is_write (fst (snd (setMaintenance (\<lambda>m. m) 1700000000123 (stubApi True True True True)
       (Some ''t1'') ''t1'' (- 5) ''cpu'' staleState)))
     = [SetMaintenance ''t1'' [(''cpu'', - 5)]]"
  using setMaintenance_payload [of "\<lambda>m. m" 1700000000123 "stubApi True True True True"
          "Some ''t1''" "''t1''" 60 "''cpu''" staleState]
        setMaintenance_payload [of "\<lambda>m. m" 1700000000123 "stubApi True True True True"
          "Some ''t1''" "''t1''" 0 "''cpu''" staleState]
        setMaintenance_payload [of "\<lambda>m. m" 1700000000123 "stubApi True True True True"
          "Some ''t1''" "''t1''" "- 5" "''cpu''" staleState]
  by simp

text \<open>
  Claim C8. Selecting the sort key that is active flips \<^verbatim>\<open>sortingDown\<close> and changes
  nothing else, so that selecting it twice gives the state back; selecting another key
  makes it the active key and sets \<^verbatim>\<open>sortingDown\<close> to true, whatever it was.
\<close>

theorem onSort_toggle:
  "(newSorting = sorting s \<longrightarrow>
      onSort s newSorting = s\<lparr>sortingDown := \<not> sortingDown s\<rparr>
      \<and> onSort (onSort s newSorting) newSorting = s)
   \<and> (newSorting \<noteq> sorting s \<longrightarrow>
      onSort s newSorting = s\<lparr>sorting := newSorting, sortingDown := True\<rparr>)"
  by (simp add: onSort_def setState_def)

theorem onSort_toggle_witness:
  "onSort staleState SortName = staleState\<lparr>sortingDown := True\<rparr>
   \<and> onSort (onSort staleState SortName) SortName = staleState
   \<and> onSort staleState SortEvent = staleState\<lparr>sorting := SortEvent, sortingDown := True\<rparr>
   \<and> sortingDown staleState = False"
  using onSort_toggle [of SortName staleState] onSort_toggle [of SortEvent staleState]
  by (simp add: staleState_def onSort_def setState_def)

section \<open>Properties of objects and of the array sort\<close>

lemma obj_keys_simps:
  "obj_keys [] = []"
  "obj_keys ((k, v) # ob) = k # obj_keys ob"
  "obj_keys (ob @ ob') = obj_keys ob @ obj_keys ob'"
  by (simp_all add: obj_keys_def)

lemma set_keys_ins_index: "set (obj_keys (ins_index n k v ob)) = insert k (set (obj_keys ob))"
  by (induction ob) (auto simp: obj_keys_simps split: option.splits if_splits)

lemma distinct_keys_ins_index:
  "distinct (obj_keys ob) \<Longrightarrow> k \<notin> set (obj_keys ob) \<Longrightarrow> distinct (obj_keys (ins_index n k v ob))"
  by (induction ob) (auto simp: obj_keys_simps set_keys_ins_index split: option.splits if_splits)

lemma map_of_ins_index:
  "k \<notin> set (obj_keys ob) \<Longrightarrow>
     map_of (ins_index n k v ob) x = (if x = k then Some v else map_of ob x)"
  by (induction ob) (auto simp: obj_keys_simps split: option.splits)

lemma map_of_replace_any:
  "map_of (map (\<lambda>(k', v'). if k' = k then (k', v) else (k', v')) ob) x
     = (if x = k \<and> k \<in> set (obj_keys ob) then Some v else map_of ob x)"
  by (induction ob) (auto simp: obj_keys_simps)

lemma map_of_replace:
  "k \<in> set (obj_keys ob) \<Longrightarrow>
     map_of (map (\<lambda>(k', v'). if k' = k then (k', v) else (k', v')) ob) x
       = (if x = k then Some v else map_of ob x)"
  by (simp add: map_of_replace_any)

lemma keys_replace:
  "obj_keys (map (\<lambda>(k', v'). if k' = k then (k', v) else (k', v')) ob) = obj_keys ob"
  by (induction ob) (auto simp: obj_keys_simps)

lemma map_of_snoc:
  "k \<notin> set (obj_keys ob) \<Longrightarrow>
     map_of (ob @ [(k, v)]) x = (if x = k then Some v else map_of ob x)"
  by (induction ob) (auto simp: obj_keys_simps)

lemma obj_put_cases:
  "k \<in> set (obj_keys ob) \<Longrightarrow>
     obj_put ob k v = map (\<lambda>(k', v'). if k' = k then (k', v) else (k', v')) ob"
  "k \<notin> set (obj_keys ob) \<Longrightarrow> array_index k = None \<Longrightarrow> obj_put ob k v = ob @ [(k, v)]"
  "k \<notin> set (obj_keys ob) \<Longrightarrow> array_index k = Some n \<Longrightarrow> obj_put ob k v = ins_index n k v ob"
  by (simp_all add: obj_put_def)

lemma set_keys_obj_put: "set (obj_keys (obj_put ob k v)) = insert k (set (obj_keys ob))"
proof (cases "k \<in> set (obj_keys ob)")
  case True
  then show ?thesis
    by (simp only: obj_put_cases(1) keys_replace) auto
next
  case False
  then show ?thesis
    by (cases "array_index k") (simp_all add: obj_put_cases obj_keys_simps set_keys_ins_index)
qed

lemma distinct_obj_put:
  assumes "distinct (obj_keys ob)"
  shows "distinct (obj_keys (obj_put ob k v))"
proof (cases "k \<in> set (obj_keys ob)")
  case True
  with assms show ?thesis
    by (simp only: obj_put_cases(1) keys_replace)
next
  case False
  with assms show ?thesis
    by (cases "array_index k")
      (simp_all add: obj_put_cases obj_keys_simps distinct_keys_ins_index)
qed

lemma map_of_obj_put: "map_of (obj_put ob k v) x = (if x = k then Some v else map_of ob x)"
proof (cases "k \<in> set (obj_keys ob)")
  case True
  show ?thesis
    unfolding obj_put_cases(1) [OF True] by (rule map_of_replace [OF True])
next
  case False
  show ?thesis
  proof (cases "array_index k")
    case None
    show ?thesis
      unfolding obj_put_cases(2) [OF False None] by (rule map_of_snoc [OF False])
  next
    case (Some n)
    show ?thesis
      unfolding obj_put_cases(3) [OF False Some] by (rule map_of_ins_index [OF False])
  qed
qed

lemma obj_get_obj_put: "obj_get (obj_put ob k v) x = (if x = k then v else obj_get ob x)"
  by (simp add: obj_get_def map_of_obj_put)

lemma foldl_put_props:
  "distinct (obj_keys acc) \<Longrightarrow>
     distinct (obj_keys (foldl (\<lambda>acc (k, v). obj_put acc k v) acc ob))
     \<and> set (obj_keys (foldl (\<lambda>acc (k, v). obj_put acc k v) acc ob))
         = set (obj_keys acc) \<union> set (obj_keys ob)"
proof (induction ob arbitrary: acc)
  case Nil
  then show ?case by (simp add: obj_keys_simps)
next
  case (Cons p ob)
  obtain k v where p: "p = (k, v)" by (cases p)
  have d: "distinct (obj_keys (obj_put acc k v))"
    using Cons.prems by (rule distinct_obj_put)
  from Cons.IH [OF d] p show ?case
    by (simp add: set_keys_obj_put obj_keys_simps)
qed

lemma foldl_put_map_of:
  "distinct (obj_keys ob) \<Longrightarrow>
     map_of (foldl (\<lambda>acc (k, v). obj_put acc k v) acc ob) x
       = (case map_of ob x of Some v \<Rightarrow> Some v | None \<Rightarrow> map_of acc x)"
proof (induction ob arbitrary: acc)
  case Nil
  then show ?case by simp
next
  case (Cons p ob)
  obtain k v where p: "p = (k, v)" by (cases p)
  from Cons.prems p have d: "distinct (obj_keys ob)" and notin: "k \<notin> set (obj_keys ob)"
    by (auto simp: obj_keys_simps)
  from notin have none: "map_of ob k = None"
    by (simp add: map_of_eq_None_iff obj_keys_def)
  from Cons.IH [OF d, of "obj_put acc k v"] none p show ?case
    by (auto simp: map_of_obj_put split: option.splits)
qed

lemma obj_spread_props:
  assumes "distinct (obj_keys ob)"
  shows "distinct (obj_keys (obj_spread ob))"
    and "set (obj_keys (obj_spread ob)) = set (obj_keys ob)"
    and "map_of (obj_spread ob) x = map_of ob x"
proof -
  have e: "distinct (obj_keys ([] :: 'a obj))" by (simp add: obj_keys_simps)
  from foldl_put_props [OF e, of ob] show "distinct (obj_keys (obj_spread ob))"
    and "set (obj_keys (obj_spread ob)) = set (obj_keys ob)"
    by (simp_all add: obj_spread_def obj_keys_simps)
  from foldl_put_map_of [OF assms, of "[]" x] show "map_of (obj_spread ob) x = map_of ob x"
    by (simp add: obj_spread_def split: option.splits)
qed

lemma reduce_value_simps:
  "reduce_value m d [] = d"
  "reduce_value m d (key # keys) =
     reduce_value m (obj_put (obj_spread d) key (obj_get m key)) keys"
  by (simp_all add: reduce_value_def)

lemma reduce_value_props:
  "distinct (obj_keys d) \<Longrightarrow>
     distinct (obj_keys (reduce_value m d keys))
     \<and> set (obj_keys (reduce_value m d keys)) = set (obj_keys d) \<union> set keys
     \<and> map_of (reduce_value m d keys) x
         = (if x \<in> set keys then Some (obj_get m x) else map_of d x)"
proof (induction keys arbitrary: d)
  case Nil
  then show ?case by (simp add: reduce_value_simps)
next
  case (Cons key keys)
  let ?d = "obj_put (obj_spread d) key (obj_get m key)"
  have sp: "distinct (obj_keys (obj_spread d))" "set (obj_keys (obj_spread d)) = set (obj_keys d)"
    "map_of (obj_spread d) x = map_of d x"
    using obj_spread_props [OF Cons.prems] by simp_all
  have d: "distinct (obj_keys ?d)"
    using sp(1) by (rule distinct_obj_put)
  have k: "set (obj_keys ?d) = insert key (set (obj_keys d))"
    by (simp add: set_keys_obj_put sp(2))
  have v: "map_of ?d x = (if x = key then Some (obj_get m key) else map_of d x)"
    by (simp add: map_of_obj_put sp(3))
  from Cons.IH [OF d] k v show ?case
    by (auto simp: reduce_value_simps)
qed

lemma reduce_heap:
  "data < length h \<Longrightarrow>
     \<exists>ext data'. reduce m h data keys = (h @ ext, data') \<and> data \<le> data'
        \<and> data' < length (h @ ext) \<and> (h @ ext) ! data' = reduce_value m (h ! data) keys"
proof (induction keys arbitrary: h data)
  case Nil
  then show ?case by (simp add: reduce_value_simps)
next
  case (Cons key keys)
  let ?ob = "obj_put (obj_spread (h ! data)) key (obj_get m key)"
  have "length h < length (h @ [?ob])" by simp
  from Cons.IH [OF this, of ] obtain ext data' where
    r: "reduce m (h @ [?ob]) (length h) keys = ((h @ [?ob]) @ ext, data')"
    and le: "length h \<le> data'" and lt: "data' < length ((h @ [?ob]) @ ext)"
    and v: "((h @ [?ob]) @ ext) ! data' = reduce_value m ((h @ [?ob]) ! length h) keys"
    by blast
  have "reduce m h data (key # keys) = (h @ (?ob # ext), data')"
    using r by (simp add: alloc_def)
  moreover have "data \<le> data'" using le Cons.prems by simp
  moreover have "data' < length (h @ (?ob # ext))" using lt by simp
  moreover have "(h @ (?ob # ext)) ! data' = reduce_value m (h ! data) (key # keys)"
    using v by (simp add: reduce_value_simps)
  ultimately show ?case by blast
qed

lemma insert_by_total:
  "\<forall>y \<in> set ys. \<exists>c. comparefn y x = Inr c \<Longrightarrow>
     \<exists>zs. insert_by comparefn x ys = Inr zs \<and> mset zs = add_mset x (mset ys)"
proof (induction ys)
  case Nil
  then show ?case by simp
next
  case (Cons y ys)
  then obtain c where c: "comparefn y x = Inr c" by auto
  from Cons obtain zs where zs: "insert_by comparefn x ys = Inr zs"
    "mset zs = add_mset x (mset ys)" by auto
  from c zs show ?case by simp
qed

lemma sort_into_total:
  "\<forall>a \<in> set pre \<union> set xs. \<forall>b \<in> set pre \<union> set xs. \<exists>c. comparefn a b = Inr c \<Longrightarrow>
     \<exists>zs. sort_into comparefn pre xs = Inr zs \<and> mset zs = mset pre + mset xs"
proof (induction xs arbitrary: pre)
  case Nil
  then show ?case by simp
next
  case (Cons x xs)
  have "\<forall>y \<in> set pre. \<exists>c. comparefn y x = Inr c"
    using Cons.prems by simp
  from insert_by_total [of pre comparefn x, OF this] obtain pre' where
    i: "insert_by comparefn x pre = Inr pre'" and m: "mset pre' = add_mset x (mset pre)"
    by blast
  from m have "set pre' = insert x (set pre)"
    by (metis set_mset_add_mset_insert set_mset_mset)
  with Cons.prems have "\<forall>a \<in> set pre' \<union> set xs. \<forall>b \<in> set pre' \<union> set xs. \<exists>c. comparefn a b = Inr c"
    by simp
  from Cons.IH [OF this] obtain zs where
    "sort_into comparefn pre' xs = Inr zs" "mset zs = mset pre' + mset xs" by blast
  with i m show ?case by simp
qed

lemma array_sort_total:
  "\<forall>a \<in> set xs. \<forall>b \<in> set xs. \<exists>c. comparefn a b = Inr c \<Longrightarrow>
     \<exists>zs. array_sort comparefn xs = Inr zs \<and> mset zs = mset xs"
  using sort_into_total [of "[]" xs comparefn] by (simp add: array_sort_def)

lemma sortingFn_total:
  "k = SortName \<or> (obj_get m a \<noteq> None \<and> obj_get m b \<noteq> None) \<Longrightarrow>
     \<exists>c. sortingFn w m down k a b = Inr c"
  by (cases k)
    (auto simp: sortingFn_def stateFn_def nameFn_def eventFn_def valueFn_def Let_def)

lemma obj_get_defined:
  "\<forall>v \<in> snd ` set m. v \<noteq> None \<Longrightarrow> a \<in> set (obj_keys m) \<Longrightarrow> obj_get m a \<noteq> None"
proof -
  assume all: "\<forall>v \<in> snd ` set m. v \<noteq> None" and a: "a \<in> set (obj_keys m)"
  from a obtain v where "map_of m a = Some v"
    by (auto simp: obj_keys_def) (metis domD dom_map_of_conv_image_fst image_eqI fst_conv)
  moreover from this have "(a, v) \<in> set m" by (rule map_of_SomeD)
  with all have "v \<noteq> None" by force
  ultimately show ?thesis by (simp add: obj_get_def)
qed

lemma sortMetrics_result:
  assumes r: "metrics < length h"
    and ok: "sorting s = SortName \<or> (\<forall>v \<in> snd ` set (h ! metrics). v \<noteq> None)"
  shows "\<exists>sorted_keys ext data.
           array_sort (sortingFn w (h ! metrics) (sortingDown s) (sorting s))
               (obj_keys (h ! metrics)) = Inr sorted_keys
         \<and> mset sorted_keys = mset (obj_keys (h ! metrics))
         \<and> sortMetrics w s h metrics = Inr (h @ ext, data)
         \<and> length h \<le> data \<and> data < length (h @ ext)
         \<and> (h @ ext) ! data = reduce_value (h ! metrics) [] sorted_keys"
proof -
  let ?m = "h ! metrics"
  have "\<exists>c. sortingFn w ?m (sortingDown s) (sorting s) a b = Inr c"
    if "a \<in> set (obj_keys ?m)" and "b \<in> set (obj_keys ?m)" for a b
  proof (rule sortingFn_total)
    show "sorting s = SortName \<or> (obj_get ?m a \<noteq> None \<and> obj_get ?m b \<noteq> None)"
      using ok that obj_get_defined [of ?m] by blast
  qed
  then have "\<forall>a \<in> set (obj_keys ?m). \<forall>b \<in> set (obj_keys ?m).
          \<exists>c. sortingFn w ?m (sortingDown s) (sorting s) a b = Inr c"
    by blast
  from array_sort_total [OF this] obtain ks where
    ks: "array_sort (sortingFn w ?m (sortingDown s) (sorting s)) (obj_keys ?m) = Inr ks"
    and perm: "mset ks = mset (obj_keys ?m)" by blast
  have "length h < length (h @ [[]])" by simp
  from reduce_heap [OF this, of ?m ks] obtain ext data where
    red: "reduce ?m (h @ [[]]) (length h) ks = ((h @ [[]]) @ ext, data)"
    and le: "length h \<le> data" and lt: "data < length ((h @ [[]]) @ ext)"
    and v: "((h @ [[]]) @ ext) ! data = reduce_value ?m ((h @ [[]]) ! length h) ks"
    by blast
  have "sortMetrics w s h metrics = Inr (h @ ([] # ext), data)"
    using r ks red by (simp add: sortMetrics_def deref_def alloc_def)
  moreover have "data < length (h @ ([] # ext))" using lt by simp
  moreover have "(h @ ([] # ext)) ! data = reduce_value ?m [] ks" using v by simp
  ultimately show ?thesis using ks perm le by blast
qed

section \<open>Properties of \<^verbatim>\<open>sortMetrics\<close> and of the comparators\<close>

lemma obj_get_absent: "k \<notin> set (obj_keys m) \<Longrightarrow> obj_get m k = None"
proof -
  assume "k \<notin> set (obj_keys m)"
  then have "map_of m k = None"
    by (simp add: map_of_eq_None_iff obj_keys_def)
  then show ?thesis by (simp add: obj_get_def)
qed

lemma reduce_value_from_empty:
  assumes "set ks = set (obj_keys m)"
  shows "distinct (obj_keys (reduce_value m [] ks))"
    and "set (obj_keys (reduce_value m [] ks)) = set (obj_keys m)"
    and "obj_get (reduce_value m [] ks) x = obj_get m x"
proof -
  have e: "distinct (obj_keys ([] :: 'a obj))" by (simp add: obj_keys_simps)
  note p = reduce_value_props [OF e, of m ks]
  from p show "distinct (obj_keys (reduce_value m [] ks))" by simp
  from p assms show "set (obj_keys (reduce_value m [] ks)) = set (obj_keys m)"
    by (simp add: obj_keys_simps)
  have "map_of (reduce_value m [] ks) x = (if x \<in> set ks then Some (obj_get m x) else None)"
    using reduce_value_props [OF e, of m ks x] by simp
  then show "obj_get (reduce_value m [] ks) x = obj_get m x"
    using assms by (simp add: obj_get_def [of "reduce_value m [] ks"] obj_get_absent)
qed

text \<open>
  Claim C4. For a reference to a metrics object whose property values are metrics (or for
  any metrics object when sorting by name), \<^verbatim>\<open>sortMetrics\<close> returns normally; the store
  it leaves extends the store it was given, so no object that existed is changed, the input
  among them; the reference it returns is to an object created by the call; that object has
  the keys of the input, each once, and under every key the value the input has; a second
  call on the resulting store gives an object equal to the first; and the result depends
  on the component's state only through \<^verbatim>\<open>sorting\<close> and \<^verbatim>\<open>sortingDown\<close>.
\<close>

theorem sortMetrics_pure:
  assumes r: "metrics < length h"
    and ok: "sorting s = SortName \<or> (\<forall>v \<in> snd ` set (h ! metrics). v \<noteq> None)"
  shows "\<exists>h' data. sortMetrics w s h metrics = Inr (h', data)
           \<and> take (length h) h' = h
           \<and> length h \<le> data \<and> data < length h'
           \<and> distinct (obj_keys (h' ! data))
           \<and> set (obj_keys (h' ! data)) = set (obj_keys (h ! metrics))
           \<and> (\<forall>k. obj_get (h' ! data) k = obj_get (h ! metrics) k)
           \<and> (\<exists>h'' data'. sortMetrics w s h' metrics = Inr (h'', data')
                 \<and> h'' ! data' = h' ! data)
           \<and> (\<forall>s'. sorting s' = sorting s \<and> sortingDown s' = sortingDown s \<longrightarrow>
                 sortMetrics w s' h metrics = sortMetrics w s h metrics)"
proof -
  from sortMetrics_result [OF r ok, of w] obtain ks ext data where
    srt: "array_sort (sortingFn w (h ! metrics) (sortingDown s) (sorting s))
            (obj_keys (h ! metrics)) = Inr ks"
    and perm: "mset ks = mset (obj_keys (h ! metrics))"
    and res: "sortMetrics w s h metrics = Inr (h @ ext, data)"
    and le: "length h \<le> data" and lt: "data < length (h @ ext)"
    and v: "(h @ ext) ! data = reduce_value (h ! metrics) [] ks"
    by blast
  from perm have ks: "set ks = set (obj_keys (h ! metrics))"
    by (metis set_mset_mset)
  have same: "(h @ ext) ! metrics = h ! metrics"
    using r by (simp add: nth_append)
  have r': "metrics < length (h @ ext)" using r by simp
  have ok': "sorting s = SortName \<or> (\<forall>v \<in> snd ` set ((h @ ext) ! metrics). v \<noteq> None)"
    using ok same by simp
  from sortMetrics_result [OF r' ok', of w] obtain ks' ext' data' where
    srt': "array_sort (sortingFn w ((h @ ext) ! metrics) (sortingDown s) (sorting s))
            (obj_keys ((h @ ext) ! metrics)) = Inr ks'"
    and res': "sortMetrics w s (h @ ext) metrics = Inr ((h @ ext) @ ext', data')"
    and v': "((h @ ext) @ ext') ! data' = reduce_value ((h @ ext) ! metrics) [] ks'"
    by blast
  from srt srt' same have "ks' = ks" by simp
  with v v' same have again: "((h @ ext) @ ext') ! data' = (h @ ext) ! data" by simp
  show ?thesis
  proof (intro exI conjI allI)
    show "sortMetrics w s h metrics = Inr (h @ ext, data)" by (rule res)
    show "take (length h) (h @ ext) = h" by simp
    show "length h \<le> data" by (rule le)
    show "data < length (h @ ext)" by (rule lt)
    show "distinct (obj_keys ((h @ ext) ! data))"
      unfolding v by (rule reduce_value_from_empty(1) [OF ks])
    show "set (obj_keys ((h @ ext) ! data)) = set (obj_keys (h ! metrics))"
      unfolding v by (rule reduce_value_from_empty(2) [OF ks])
    show "obj_get ((h @ ext) ! data) k = obj_get (h ! metrics) k" for k
      unfolding v by (rule reduce_value_from_empty(3) [OF ks])
    show "sortMetrics w s (h @ ext) metrics = Inr ((h @ ext) @ ext', data')" by (rule res')
    show "((h @ ext) @ ext') ! data' = (h @ ext) ! data" by (rule again)
    show "sorting s' = sorting s \<and> sortingDown s' = sortingDown s \<longrightarrow>
            sortMetrics w s' h metrics = sortMetrics w s h metrics" for s'
      by (cases "deref h metrics") (simp_all add: sortMetrics_def)
  qed
qed


lemma sortMetrics_example:
  "result_keys (sortMetrics (\<lambda>n. JNum (of_nat n)) staleState [exampleMetrics] 0)
     = Inr [''Metric-A!'', ''metric-a'', ''cpu'']"
  by code_simp

theorem sortMetrics_pure_witness:
  "(\<exists>h' data. sortMetrics (\<lambda>n. JNum (of_nat n)) staleState [exampleMetrics] 0 = Inr (h', data)
      \<and> take 1 h' = [exampleMetrics] \<and> 1 \<le> data \<and> data < length h'
      \<and> set (obj_keys (h' ! data)) = {''Metric-A!'', ''cpu'', ''metric-a''}
      \<and> obj_get (h' ! data) ''cpu''
          = Some \<lparr>state = 1, event_timestamp = JUndefined, metric_value = JNum 3\<rparr>)
   \<and> (\<exists>h' data. sortMetrics (\<lambda>n. JNum (of_nat n)) (initialState :: (nat, nat, nat) State)
                   [exampleMetrics] 0 = Inr (h', data)
      \<and> take 1 h' = [exampleMetrics] \<and> 1 \<le> data \<and> data < length h'
      \<and> set (obj_keys (h' ! data)) = {''Metric-A!'', ''cpu'', ''metric-a''}
      \<and> obj_get (h' ! data) ''Metric-A!''
          = Some \<lparr>state = 0, event_timestamp = JNum 5, metric_value = JUndefined\<rparr>)"
proof -
  have r: "0 < length [exampleMetrics]" by simp
  have ok: "sorting staleState = SortName
      \<or> (\<forall>v \<in> snd ` set ([exampleMetrics] ! 0). v \<noteq> None)"
    by (simp add: staleState_def)
  have ok': "sorting (initialState :: (nat, nat, nat) State) = SortName
      \<or> (\<forall>v \<in> snd ` set ([exampleMetrics] ! 0). v \<noteq> None)"
    by (simp add: exampleMetrics_def)
  from sortMetrics_pure [OF r ok, of "\<lambda>n. JNum (of_nat n)"] obtain h' data where
    "sortMetrics (\<lambda>n. JNum (of_nat n)) staleState [exampleMetrics] 0 = Inr (h', data)"
    "take (length [exampleMetrics]) h' = [exampleMetrics]"
    "length [exampleMetrics] \<le> data" "data < length h'"
    "set (obj_keys (h' ! data)) = set (obj_keys ([exampleMetrics] ! 0))"
    "\<forall>k. obj_get (h' ! data) k = obj_get ([exampleMetrics] ! 0) k"
    by blast
  then have first: "\<exists>h' data.
      sortMetrics (\<lambda>n. JNum (of_nat n)) staleState [exampleMetrics] 0 = Inr (h', data)
      \<and> take 1 h' = [exampleMetrics] \<and> 1 \<le> data \<and> data < length h'
      \<and> set (obj_keys (h' ! data)) = {''Metric-A!'', ''cpu'', ''metric-a''}
      \<and> obj_get (h' ! data) ''cpu''
          = Some \<lparr>state = 1, event_timestamp = JUndefined, metric_value = JNum 3\<rparr>"
    by (auto simp: exampleMetrics_def obj_keys_def obj_get_def)
  from sortMetrics_pure [OF r ok', of "\<lambda>n. JNum (of_nat n)"] obtain h' data where
    "sortMetrics (\<lambda>n. JNum (of_nat n)) (initialState :: (nat, nat, nat) State)
       [exampleMetrics] 0 = Inr (h', data)"
    "take (length [exampleMetrics]) h' = [exampleMetrics]"
    "length [exampleMetrics] \<le> data" "data < length h'"
    "set (obj_keys (h' ! data)) = set (obj_keys ([exampleMetrics] ! 0))"
    "\<forall>k. obj_get (h' ! data) k = obj_get ([exampleMetrics] ! 0) k"
    by blast
  then have "\<exists>h' data.
      sortMetrics (\<lambda>n. JNum (of_nat n)) (initialState :: (nat, nat, nat) State)
        [exampleMetrics] 0 = Inr (h', data)
      \<and> take 1 h' = [exampleMetrics] \<and> 1 \<le> data \<and> data < length h'
      \<and> set (obj_keys (h' ! data)) = {''Metric-A!'', ''cpu'', ''metric-a''}
      \<and> obj_get (h' ! data) ''Metric-A!''
          = Some \<lparr>state = 0, event_timestamp = JNum 5, metric_value = JUndefined\<rparr>"
    by (auto simp: exampleMetrics_def obj_keys_def obj_get_def)
  with first show ?thesis by (rule conjI)
qed

lemma js_lt_asym: "js_lt a b \<Longrightarrow> \<not> js_lt b a"
  by (cases a; cases b) auto

text \<open>
  Claim C5. For two keys of the metrics object, each of the four comparators follows the
  sign convention on its comparison keys \<open>A\<close> and \<open>B\<close> (the status weights, the normalized
  names, the raw \<^verbatim>\<open>event_timestamp\<close> fields, the values with 0 for a falsy one): \<open>-1\<close>
  if \<^verbatim>\<open>sortingDown\<close> and \<open>1\<close> otherwise when \<^verbatim>\<open>A < B\<close>, the opposite when
  \<^verbatim>\<open>A > B\<close>, and \<open>0\<close> when neither holds.
\<close>

theorem comparator_sign_convention:
  assumes "obj_get metrics a = Some ma" and "obj_get metrics b = Some mb"
  shows "sign_convention (js_lt (w (state ma)) (w (state mb))) (js_gt (w (state ma)) (w (state mb)))
           down (stateFn w metrics down a b)
       \<and> sign_convention
           (toLowerCase (replace_regex (trim a)) < toLowerCase (replace_regex (trim b)))
           (toLowerCase (replace_regex (trim a)) > toLowerCase (replace_regex (trim b)))
           down (nameFn down a b)
       \<and> sign_convention (js_lt (event_timestamp ma) (event_timestamp mb))
           (js_gt (event_timestamp ma) (event_timestamp mb)) down (eventFn metrics down a b)
       \<and> sign_convention (js_lt (js_or (metric_value ma) (JNum 0)) (js_or (metric_value mb) (JNum 0)))
           (js_gt (js_or (metric_value ma) (JNum 0)) (js_or (metric_value mb) (JNum 0)))
           down (valueFn metrics down a b)"
  using assms
  by (auto simp: sign_convention_def stateFn_def nameFn_def eventFn_def valueFn_def Let_def
      js_gt_def dest: js_lt_asym)

theorem comparator_sign_convention_witness:
  "stateFn (\<lambda>n. JNum (of_nat n)) exampleMetrics True ''cpu'' ''metric-a'' = Inr (- 1)
   \<and> stateFn (\<lambda>n. JNum (of_nat n)) exampleMetrics False ''cpu'' ''metric-a'' = Inr 1
   \<and> eventFn exampleMetrics True ''metric-a'' ''Metric-A!'' = Inr 1
   \<and> eventFn exampleMetrics False ''metric-a'' ''Metric-A!'' = Inr (- 1)
   \<and> valueFn exampleMetrics True ''cpu'' ''cpu'' = Inr 0
   \<and> valueFn exampleMetrics True ''metric-a'' ''cpu'' = Inr (- 1)"
proof -
  have g: "obj_get exampleMetrics ''cpu''
             = Some \<lparr>state = 1, event_timestamp = JUndefined, metric_value = JNum 3\<rparr>"
    "obj_get exampleMetrics ''metric-a''
             = Some \<lparr>state = 2, event_timestamp = JNum 7, metric_value = JNum (- 1)\<rparr>"
    "obj_get exampleMetrics ''Metric-A!''
             = Some \<lparr>state = 0, event_timestamp = JNum 5, metric_value = JUndefined\<rparr>"
    by (simp_all add: exampleMetrics_def obj_get_def)
  from comparator_sign_convention [OF g(1) g(2), of "\<lambda>n. JNum (of_nat n)" True]
       comparator_sign_convention [OF g(1) g(2), of "\<lambda>n. JNum (of_nat n)" False]
       comparator_sign_convention [OF g(2) g(3), of "\<lambda>n. JNum (of_nat n)" True]
       comparator_sign_convention [OF g(2) g(3), of "\<lambda>n. JNum (of_nat n)" False]
       comparator_sign_convention [OF g(1) g(1), of "\<lambda>n. JNum (of_nat n)" True]
       comparator_sign_convention [OF g(2) g(1), of "\<lambda>n. JNum (of_nat n)" True]
  show ?thesis
    by (simp add: sign_convention_def js_gt_def js_or_def)
qed

lemma filter_dropWhile: "(\<And>c. Q c \<Longrightarrow> \<not> P c) \<Longrightarrow> filter P (dropWhile Q s) = filter P s"
  by (induction s) auto

lemma white_matches: "is_white c \<Longrightarrow> regex_matches c"
  by (auto simp: is_white_def regex_matches_def less_eq_char_def)

lemma replace_regex_trim: "replace_regex (trim s) = replace_regex s"
proof -
  have w: "\<And>c. is_white c \<Longrightarrow> \<not> \<not> regex_matches c"
    by (simp add: white_matches)
  have "filter (\<lambda>c. \<not> regex_matches c) (rev (dropWhile is_white (rev (dropWhile is_white s))))
          = rev (filter (\<lambda>c. \<not> regex_matches c) (dropWhile is_white (rev (dropWhile is_white s))))"
    by (simp add: rev_filter)
  also have "\<dots> = rev (filter (\<lambda>c. \<not> regex_matches c) (rev (dropWhile is_white s)))"
    by (simp only: filter_dropWhile [of is_white "\<lambda>c. \<not> regex_matches c", OF w])
  also have "\<dots> = filter (\<lambda>c. \<not> regex_matches c) (dropWhile is_white s)"
    by (simp add: rev_filter)
  also have "\<dots> = filter (\<lambda>c. \<not> regex_matches c) s"
    by (simp only: filter_dropWhile [of is_white "\<lambda>c. \<not> regex_matches c", OF w])
  finally show ?thesis by (simp add: replace_regex_def trim_def)
qed


lemma obj_keys_zero_absent: "obj_keys (zero_absent P m) = obj_keys m"
  by (induction m) (auto simp: zero_absent_def obj_keys_def)

lemma map_of_zero_absent:
  "map_of (zero_absent P m) k =
     map_option (\<lambda>v. if P k
                        then map_option (\<lambda>x. if metric_value x = JUndefined
                                              then x\<lparr>metric_value := JNum 0\<rparr> else x) v
                        else v) (map_of m k)"
  by (induction m) (auto simp: zero_absent_def)

lemma valueFn_zero_absent: "valueFn (zero_absent P m) down a b = valueFn m down a b"
  by (auto simp: valueFn_def obj_get_def map_of_zero_absent js_or_def Let_def
      split: option.splits)

lemma ins_index_keys_cong:
  "obj_keys ob = obj_keys ob' \<Longrightarrow>
     obj_keys (ins_index n k v ob) = obj_keys (ins_index n k v' ob')"
proof (induction ob arbitrary: ob')
  case Nil
  then show ?case by (simp add: obj_keys_def)
next
  case (Cons p ob)
  obtain k1 v1 where p: "p = (k1, v1)" by (cases p)
  from Cons.prems p obtain v2 ob2 where ob': "ob' = (k1, v2) # ob2" and t: "obj_keys ob = obj_keys ob2"
    by (cases ob') (auto simp: obj_keys_def)
  from Cons.IH [OF t] p ob' t show ?case
    by (auto simp: obj_keys_simps split: option.splits)
qed

lemma obj_put_keys_cong:
  assumes "obj_keys ob = obj_keys ob'"
  shows "obj_keys (obj_put ob k v) = obj_keys (obj_put ob' k v')"
proof (cases "k \<in> set (obj_keys ob)")
  case True
  moreover from True assms have "k \<in> set (obj_keys ob')" by simp
  ultimately show ?thesis using assms
    by (simp only: obj_put_cases(1) keys_replace)
next
  case False
  with assms have False': "k \<notin> set (obj_keys ob')" by simp
  show ?thesis
  proof (cases "array_index k")
    case None
    show ?thesis
      unfolding obj_put_cases(2) [OF False None] obj_put_cases(2) [OF False' None]
      using assms by (simp add: obj_keys_simps)
  next
    case (Some n)
    show ?thesis
      unfolding obj_put_cases(3) [OF False Some] obj_put_cases(3) [OF False' Some]
      using assms by (rule ins_index_keys_cong)
  qed
qed

lemma foldl_put_keys_cong:
  "obj_keys acc = obj_keys acc' \<Longrightarrow> obj_keys ob = obj_keys ob' \<Longrightarrow>
     obj_keys (foldl (\<lambda>acc (k, v). obj_put acc k v) acc ob)
       = obj_keys (foldl (\<lambda>acc (k, v). obj_put acc k v) acc' ob')"
proof (induction ob arbitrary: ob' acc acc')
  case Nil
  then show ?case by (simp add: obj_keys_def)
next
  case (Cons p ob)
  obtain k1 v1 where p: "p = (k1, v1)" by (cases p)
  from Cons.prems(2) p obtain v2 ob2 where ob': "ob' = (k1, v2) # ob2"
    and t: "obj_keys ob = obj_keys ob2"
    by (cases ob') (auto simp: obj_keys_def)
  have "obj_keys (obj_put acc k1 v1) = obj_keys (obj_put acc' k1 v2)"
    using Cons.prems(1) by (rule obj_put_keys_cong)
  from Cons.IH [OF this t] p ob' show ?case by simp
qed

lemma obj_spread_keys_cong:
  "obj_keys ob = obj_keys ob' \<Longrightarrow> obj_keys (obj_spread ob) = obj_keys (obj_spread ob')"
  using foldl_put_keys_cong [of "[]" "[]" ob ob'] by (simp add: obj_spread_def obj_keys_simps)

lemma reduce_value_keys_cong:
  "obj_keys d = obj_keys d' \<Longrightarrow>
     obj_keys (reduce_value m d ks) = obj_keys (reduce_value m' d' ks)"
proof (induction ks arbitrary: d d')
  case Nil
  then show ?case by (simp add: reduce_value_simps)
next
  case (Cons key ks)
  have "obj_keys (obj_put (obj_spread d) key (obj_get m key))
          = obj_keys (obj_put (obj_spread d') key (obj_get m' key))"
    by (rule obj_put_keys_cong) (rule obj_spread_keys_cong [OF Cons.prems])
  from Cons.IH [OF this] show ?case by (simp add: reduce_value_simps)
qed

lemma result_keys_sortMetrics:
  assumes "metrics < length h"
  shows "result_keys (sortMetrics w s h metrics) =
     (case array_sort (sortingFn w (h ! metrics) (sortingDown s) (sorting s))
             (obj_keys (h ! metrics)) of
        Inl e \<Rightarrow> Inl e
      | Inr ks \<Rightarrow> Inr (obj_keys (reduce_value (h ! metrics) [] ks)))"
proof (cases "array_sort (sortingFn w (h ! metrics) (sortingDown s) (sorting s))
             (obj_keys (h ! metrics))")
  case (Inl e)
  with assms show ?thesis
    by (simp add: sortMetrics_def deref_def result_keys_def)
next
  case (Inr ks)
  have "length h < length (h @ [[]])" by simp
  from reduce_heap [OF this, of "h ! metrics" ks] obtain ext data where
    "reduce (h ! metrics) (h @ [[]]) (length h) ks = ((h @ [[]]) @ ext, data)"
    "((h @ [[]]) @ ext) ! data = reduce_value (h ! metrics) ((h @ [[]]) ! length h) ks"
    by blast
  with assms Inr show ?thesis
    by (simp add: sortMetrics_def deref_def result_keys_def alloc_def)
qed

text \<open>
  Claim C7. Giving \<^verbatim>\<open>value: 0\<close> to metrics that have no \<^verbatim>\<open>value\<close> field changes no
  result of the value comparator, and when sorting by value it does not change the outcome
  of \<^verbatim>\<open>sortMetrics\<close>: the same exception, or the same key order of the returned object.
\<close>

theorem value_absent_as_zero:
  "valueFn (zero_absent P m) down a b = valueFn m down a b
   \<and> (sorting s = SortValue \<longrightarrow>
        result_keys (sortMetrics w s (h[metrics := zero_absent P (h ! metrics)]) metrics)
          = result_keys (sortMetrics w s h metrics))"
proof (intro conjI impI)
  show "valueFn (zero_absent P m) down a b = valueFn m down a b"
    by (rule valueFn_zero_absent)
next
  assume sv: "sorting s = SortValue"
  show "result_keys (sortMetrics w s (h[metrics := zero_absent P (h ! metrics)]) metrics)
          = result_keys (sortMetrics w s h metrics)"
  proof (cases "metrics < length h")
    case False
    then have "h[metrics := zero_absent P (h ! metrics)] = h"
      by (simp add: list_update_beyond)
    then show ?thesis by simp
  next
    case True
    let ?m = "h ! metrics" and ?h' = "h[metrics := zero_absent P (h ! metrics)]"
    have l: "metrics < length ?h'" using True by simp
    have m': "?h' ! metrics = zero_absent P ?m" using True by simp
    have f: "sortingFn w (zero_absent P ?m) (sortingDown s) (sorting s)
               = sortingFn w ?m (sortingDown s) (sorting s)"
      using sv by (simp add: sortingFn_def fun_eq_iff valueFn_zero_absent)
    show ?thesis
      unfolding result_keys_sortMetrics [OF l] result_keys_sortMetrics [OF True] m' f
        obj_keys_zero_absent
      by (auto split: sum.splits intro: reduce_value_keys_cong)
  qed
qed


theorem value_absent_as_zero_witness:
  "valueFn (zero_absent (\<lambda>k. True) exampleMetrics) True ''Metric-A!'' ''cpu''
     = valueFn exampleMetrics True ''Metric-A!'' ''cpu''
   \<and> obj_get (zero_absent (\<lambda>k. True) exampleMetrics) ''Metric-A!''
       = Some \<lparr>state = 0, event_timestamp = JNum 5, metric_value = JNum 0\<rparr>
   \<and> result_keys (sortMetrics (\<lambda>n. JNum (of_nat n)) (initialState :: (nat, nat, nat) State)
         [zero_absent (\<lambda>k. True) exampleMetrics] 0)
       = result_keys (sortMetrics (\<lambda>n. JNum (of_nat n)) (initialState :: (nat, nat, nat) State)
           [exampleMetrics] 0)"
proof -
  have s: "sorting (initialState :: (nat, nat, nat) State) = SortValue"
    by (simp add: initialState_def)
  have g: "obj_get (zero_absent (\<lambda>k. True) exampleMetrics) ''Metric-A!''
       = Some \<lparr>state = 0, event_timestamp = JNum 5, metric_value = JNum 0\<rparr>"
    by (simp add: zero_absent_def exampleMetrics_def obj_get_def)
  from value_absent_as_zero [of "\<lambda>k. True" exampleMetrics True "''Metric-A!''" "''cpu''"
      "initialState :: (nat, nat, nat) State" "\<lambda>n. JNum (of_nat n)" "[exampleMetrics]" 0] s g
  show ?thesis by simp
qed

text \<open>
  Claim C10. For two keys of the metrics object, the event comparator returns \<open>0\<close>, in
  both argument orders, whenever one of the two metrics has no \<^verbatim>\<open>event_timestamp\<close>;
  the value comparator does not tie in that way: a metric without \<^verbatim>\<open>value\<close> is
  compared as \<open>0\<close> and so is ordered against a metric with a positive value.
\<close>

theorem event_absent_ties:
  assumes "obj_get metrics a = Some ma" and "obj_get metrics b = Some mb"
  shows "(event_timestamp ma = JUndefined \<or> event_timestamp mb = JUndefined \<longrightarrow>
            eventFn metrics down a b = Inr 0 \<and> eventFn metrics down b a = Inr 0)
       \<and> (metric_value ma = JUndefined \<and> metric_value mb = JNum x \<and> 0 < x \<longrightarrow>
            valueFn metrics down a b = Inr (if down then - 1 else 1))"
  using assms
  by (cases "event_timestamp ma"; cases "event_timestamp mb")
     (auto simp: eventFn_def valueFn_def Let_def js_gt_def js_or_def)

theorem event_absent_ties_witness:
  "eventFn exampleMetrics True ''cpu'' ''Metric-A!'' = Inr 0
   \<and> eventFn exampleMetrics True ''Metric-A!'' ''cpu'' = Inr 0
   \<and> valueFn exampleMetrics True ''Metric-A!'' ''cpu'' = Inr (- 1)"
proof -
  have g: "obj_get exampleMetrics ''cpu''
             = Some \<lparr>state = 1, event_timestamp = JUndefined, metric_value = JNum 3\<rparr>"
    "obj_get exampleMetrics ''Metric-A!''
             = Some \<lparr>state = 0, event_timestamp = JNum 5, metric_value = JUndefined\<rparr>"
    by (simp_all add: exampleMetrics_def obj_get_def)
  from event_absent_ties [OF g(1) g(2), of True 3] event_absent_ties [OF g(2) g(1), of True 3]
  show ?thesis by simp
qed

lemma sortMetrics_keys:
  assumes r: "metrics < length h"
    and ok: "sorting s = SortName \<or> (\<forall>v \<in> snd ` set (h ! metrics). v \<noteq> None)"
  shows "\<exists>h' data. sortMetrics w s h metrics = Inr (h', data)
           \<and> set (obj_keys (h' ! data)) = set (obj_keys (h ! metrics))"
proof -
  from sortMetrics_result [OF r ok, of w] obtain ks ext data where
    perm: "mset ks = mset (obj_keys (h ! metrics))"
    and res: "sortMetrics w s h metrics = Inr (h @ ext, data)"
    and v: "(h @ ext) ! data = reduce_value (h ! metrics) [] ks"
    by blast
  from perm have ks: "set ks = set (obj_keys (h ! metrics))"
    by (metis set_mset_mset)
  from reduce_value_from_empty(2) [OF ks] res v show ?thesis by simp
qed

text \<open>
  Claim C6. The name comparator returns \<open>0\<close> for two names whose normal forms (trimmed,
  every character outside \<^verbatim>\<open>[a-zA-Z0-9-.]\<close> removed, lower case) are equal;
  \<^verbatim>\<open>"Metric-A!"\<close> and \<^verbatim>\<open>"metric-a"\<close> both have the normal form \<^verbatim>\<open>"metric-a"\<close> and
  compare as equal; and the object that \<^verbatim>\<open>sortMetrics\<close> returns when sorting by name has
  the keys of the input, as they are.
\<close>

theorem name_comparator_normalizes:
  "(toLowerCase (replace_regex (trim a)) = toLowerCase (replace_regex (trim b)) \<longrightarrow>
      nameFn down a b = Inr 0)
   \<and> toLowerCase (replace_regex (trim ''Metric-A!'')) = ''metric-a''
   \<and> toLowerCase (replace_regex (trim ''metric-a'')) = ''metric-a''
   \<and> nameFn down ''Metric-A!'' ''metric-a'' = Inr 0
   \<and> (metrics < length h \<and> sorting s = SortName \<longrightarrow>
        (\<exists>h' data. sortMetrics w s h metrics = Inr (h', data)
           \<and> set (obj_keys (h' ! data)) = set (obj_keys (h ! metrics))))"
proof -
  have n1: "toLowerCase (replace_regex (trim ''Metric-A!'')) = ''metric-a''"
    by code_simp
  have n2: "toLowerCase (replace_regex (trim ''metric-a'')) = ''metric-a''"
    by code_simp
  have eq: "nameFn down x y = Inr 0"
    if "toLowerCase (replace_regex (trim x)) = toLowerCase (replace_regex (trim y))" for x y
    using that by (simp add: nameFn_def Let_def)
  have "nameFn down ''Metric-A!'' ''metric-a'' = Inr 0"
    by (rule eq) (simp only: n1 n2)
  with n1 n2 eq [of a b] sortMetrics_keys [of metrics h s w] show ?thesis
    by blast
qed

theorem name_comparator_normalizes_witness:
  "nameFn False ''  Metric-A!'' ''metric-a '' = Inr 0
   \<and> (\<exists>h' data. sortMetrics (\<lambda>n. JNum (of_nat n)) staleState [exampleMetrics] 0 = Inr (h', data)
         \<and> set (obj_keys (h' ! data)) = {''Metric-A!'', ''cpu'', ''metric-a''})
   \<and> result_keys (sortMetrics (\<lambda>n. JNum (of_nat n)) staleState [exampleMetrics] 0)
       = Inr [''Metric-A!'', ''metric-a'', ''cpu'']"
proof -
  have n: "toLowerCase (replace_regex (trim ''  Metric-A!''))
             = toLowerCase (replace_regex (trim ''metric-a ''))"
    by code_simp
  have k: "(0::nat) < length [exampleMetrics] \<and> sorting staleState = SortName"
    by (simp add: staleState_def)
  note e = sortMetrics_example
  from name_comparator_normalizes [of "''  Metric-A!''" "''metric-a ''" False 0 "[exampleMetrics]"
      staleState "\<lambda>n. JNum (of_nat n)"] n k e
  show ?thesis
    by (simp add: exampleMetrics_def obj_keys_def insert_commute)
qed

end
